theory Spec2Isabelle
  imports Main "HOL-Library.Word"
begin

unbundle bit_operations_syntax

section \<open>The machine the sample functions run on\<close>

text \<open>
  The functions of \<^verbatim>\<open>examples/sample_code.c\<close> work on raw memory through pointers and
  call the C library (\<^verbatim>\<open>malloc\<close>, \<^verbatim>\<open>memcpy\<close>, \<^verbatim>\<open>free\<close>, \<^verbatim>\<open>strncpy\<close>).
  The model passes the memory explicitly.

  \<^item> \<open>size_t\<close> is a 64-bit word (the specification fixes the length field at 8 bytes);
    its arithmetic wraps.
  \<^item> Caller-owned memory is a total function from addresses to bytes: a load from any
    address yields whatever the memory holds there, as on the machine. Every access is
    appended to a trace, so that a read outside a buffer is visible in the trace rather
    than hidden in the value.
  \<^item> The blocks handed out by \<^verbatim>\<open>malloc\<close> live in a separate list, newest first.
  \<^item> Whether \<^verbatim>\<open>malloc\<close> grants a request is decided by the platform, as a function of the
    live blocks and the requested size, within what a 64-bit address space can hold. The
    byte order of the platform is a parameter too: the source reads the length field in
    native order.
  \<^item> A load never traps in the model. On the machine a load outside a live object may
    fault; the model shows such a load as an event that is not inside the buffer.
\<close>

type_synonym byte = "8 word"
type_synonym size_t = "64 word"

datatype ptr = Null | Addr nat

datatype endian = Little | Big

datatype event =
    Load nat nat
  | Store nat byte
  | Malloc size_t bool
  | Memcpy nat nat
  | Free "byte list"

text \<open>
  \<open>Load a w\<close>: \<open>w\<close> bytes read at address \<open>a\<close>. \<open>Store a b\<close>: byte \<open>b\<close> written at
  address \<open>a\<close>. \<open>Malloc n ok\<close>: a request for \<open>n\<close> bytes and whether it was granted.
  \<open>Memcpy a n\<close>: \<open>n\<close> bytes read from address \<open>a\<close> on and written to the newest block.
  \<open>Free b\<close>: the newest block released, \<open>b\<close> being what it held at that moment.
\<close>

record machine =
  mem :: "nat \<Rightarrow> byte"
  heap :: "byte list list"
  trace :: "event list"

record platform =
  byte_order :: endian
  grants :: "byte list list \<Rightarrow> size_t \<Rightarrow> bool"
  junk :: byte

definition emit :: "event \<Rightarrow> machine \<Rightarrow> machine" where
  "emit e s = s\<lparr>trace := trace s @ [e]\<rparr>"

definition load_byte :: "nat \<Rightarrow> machine \<Rightarrow> byte \<times> machine" where
  "load_byte a s = (mem s a, emit (Load a 1) s)"

definition store_byte :: "nat \<Rightarrow> byte \<Rightarrow> machine \<Rightarrow> machine" where
  "store_byte a b s = emit (Store a b) (s\<lparr>mem := (mem s)(a := b)\<rparr>)"

text \<open>The value of a byte string, least significant byte first.\<close>

fun le_word :: "byte list \<Rightarrow> size_t" where
  "le_word [] = 0"
| "le_word (b # bs) = ucast b OR push_bit 8 (le_word bs)"

definition decode_size_t :: "endian \<Rightarrow> byte list \<Rightarrow> size_t" where
  "decode_size_t e bs = (case e of Little \<Rightarrow> le_word bs | Big \<Rightarrow> le_word (rev bs))"

text \<open>The 8 bytes that hold a \<open>size_t\<close> in memory, in the given byte order.\<close>

definition le_bytes :: "size_t \<Rightarrow> byte list" where
  "le_bytes n = map (\<lambda>i. ucast (drop_bit (8 * i) n)) [0..<8]"

definition encode_size_t :: "endian \<Rightarrow> size_t \<Rightarrow> byte list" where
  "encode_size_t e n = (case e of Little \<Rightarrow> le_bytes n | Big \<Rightarrow> rev (le_bytes n))"

text \<open>
  \<^verbatim>\<open>*(size_t*)p\<close>: one 8-byte load in native byte order. The alignment and effective-type
  rules of C are not part of the model.
\<close>

definition load_size_t :: "platform \<Rightarrow> nat \<Rightarrow> machine \<Rightarrow> size_t \<times> machine" where
  "load_size_t pf a s =
     (decode_size_t (byte_order pf) (map (mem s) [a..<a + 8]), emit (Load a 8) s)"

text \<open>
  A block shares the 64-bit address space with everything else that is live. Of the
  \<open>2\<^sup>6\<^sup>4\<close> addresses one is the null pointer, and at the one place where the source calls
  \<^verbatim>\<open>malloc\<close> the input is live with at least 8 bytes (the call sits behind \<^verbatim>\<open>len >= 8\<close>).
  A block of \<open>2\<^sup>6\<^sup>4 - 8\<close> bytes or more therefore exists on no machine, whatever the
  allocator.
\<close>

definition block_fits :: "size_t \<Rightarrow> bool" where
  "block_fits n \<longleftrightarrow> unat n + 8 < 2 ^ 64"

text \<open>
  \<^verbatim>\<open>malloc(n)\<close>: a request for a block that cannot exist is refused; any other request
  the platform grants or refuses. A granted block is pushed on the heap; C leaves its
  contents indeterminate, the model fills it with the \<open>junk\<close> byte of the platform. The
  result \<open>True\<close> stands for a non-null pointer to that block.
\<close>

definition malloc :: "platform \<Rightarrow> size_t \<Rightarrow> machine \<Rightarrow> bool \<times> machine" where
  "malloc pf n s =
     (if block_fits n \<and> grants pf (heap s) n
      then (True, emit (Malloc n True) (s\<lparr>heap := replicate (unat n) (junk pf) # heap s\<rparr>))
      else (False, emit (Malloc n False) s))"

text \<open>\<^verbatim>\<open>memcpy(block, src, n)\<close> into the newest block: its first \<open>n\<close> bytes are overwritten.\<close>

definition memcpy :: "nat \<Rightarrow> nat \<Rightarrow> machine \<Rightarrow> machine" where
  "memcpy src n s =
     (case heap s of
        [] \<Rightarrow> emit (Memcpy src n) s
      | b # bs \<Rightarrow> emit (Memcpy src n) (s\<lparr>heap := (map (mem s) [src..<src + n] @ drop n b) # bs\<rparr>))"

text \<open>\<^verbatim>\<open>free(block)\<close> of the newest block.\<close>

definition free :: "machine \<Rightarrow> machine" where
  "free s =
     (case heap s of
        [] \<Rightarrow> s
      | b # bs \<Rightarrow> emit (Free b) (s\<lparr>heap := bs\<rparr>))"

section \<open>process_input\<close>

text \<open>
  The chain \<^verbatim>\<open>input[0] == 'F' && input[1] == 'U' && ...\<close>: bytes are loaded one at a time
  and the chain stops at the first mismatch (C's \<^verbatim>\<open>&&\<close> does not evaluate its right operand
  then).
\<close>

fun match_bytes :: "nat \<Rightarrow> byte list \<Rightarrow> machine \<Rightarrow> bool \<times> machine" where
  "match_bytes a [] s = (True, s)"
| "match_bytes a (c # cs) s =
     (let (b, s') = load_byte a s in
      if b = c then match_bytes (a + 1) cs s' else (False, s'))"

text \<open>The ASCII bytes \<^verbatim>\<open>F\<close>, \<^verbatim>\<open>U\<close>, \<^verbatim>\<open>Z\<close>, \<^verbatim>\<open>Z\<close>.\<close>

definition magic :: "byte list" where
  "magic = [0x46, 0x55, 0x5A, 0x5A]"

text \<open>The condition \<^verbatim>\<open>len >= 4 && input[0] == 'F' && ... && input[3] == 'Z'\<close>.\<close>

definition check_magic :: "nat \<Rightarrow> size_t \<Rightarrow> machine \<Rightarrow> bool \<times> machine" where
  "check_magic a len s = (if 4 \<le> len then match_bytes a magic s else (False, s))"

text \<open>
  \<^verbatim>\<open>int process_input(const unsigned char *input, size_t len)\<close>. The comparison
  \<^verbatim>\<open>len >= 8 + data_len\<close> is on \<open>size_t\<close>: the sum is a 64-bit word and wraps.
\<close>

definition process_input :: "platform \<Rightarrow> ptr \<Rightarrow> size_t \<Rightarrow> machine \<Rightarrow> int \<times> machine" where
  "process_input pf input len s0 =
     (case input of
        Null \<Rightarrow> (- 1, s0)
      | Addr a \<Rightarrow>
          if len = 0 then (- 1, s0)
          else
            let (tag_ok, s1) = check_magic a len s0 in
            if tag_ok then
              if 8 \<le> len then
                let (data_len, s2) = load_size_t pf (a + 4) s1 in
                if 0 < data_len \<and> 8 + data_len \<le> len then
                  let (buffer, s3) = malloc pf data_len s2 in
                  if buffer then (0, free (memcpy (a + 8) (unat data_len) s3))
                  else (1, s3)
                else (1, s2)
              else (1, s1)
            else (1, s1))"

section \<open>safe_copy_string\<close>

text \<open>
  \<^verbatim>\<open>strncpy(dest, src, n)\<close> as the C standard describes it: characters are copied from
  \<open>src\<close> up to and including the first null character or until \<open>n\<close> have been copied,
  whichever comes first; if the null character came first, the rest of the \<open>n\<close> positions
  of \<open>dest\<close> is filled with null characters. Exactly \<open>n\<close> bytes are written.
\<close>

fun fill_zero :: "nat \<Rightarrow> nat \<Rightarrow> machine \<Rightarrow> machine" where
  "fill_zero d 0 s = s"
| "fill_zero d (Suc n) s = fill_zero (d + 1) n (store_byte d 0 s)"

fun strncpy :: "nat \<Rightarrow> nat \<Rightarrow> nat \<Rightarrow> machine \<Rightarrow> machine" where
  "strncpy d r 0 s = s"
| "strncpy d r (Suc n) s =
     (let (c, s') = load_byte r s in
      if c = 0 then fill_zero d (Suc n) s'
      else strncpy (d + 1) (r + 1) n (store_byte d c s'))"

text \<open>\<^verbatim>\<open>void safe_copy_string(char *dest, const char *src, size_t dest_size)\<close>.\<close>

definition safe_copy_string :: "ptr \<Rightarrow> ptr \<Rightarrow> size_t \<Rightarrow> machine \<Rightarrow> machine" where
  "safe_copy_string dest src dest_size s =
     (case (dest, src) of
        (Addr d, Addr r) \<Rightarrow>
          if dest_size = 0 then s
          else store_byte (d + unat (dest_size - 1)) 0 (strncpy d r (unat (dest_size - 1)) s)
      | _ \<Rightarrow> s)"

section \<open>Reading a trace\<close>

text \<open>An access stays inside the buffer of \<open>n\<close> bytes at address \<open>a\<close>.\<close>

fun inside :: "nat \<Rightarrow> nat \<Rightarrow> event \<Rightarrow> bool" where
  "inside a n (Load x w) = (a \<le> x \<and> x + w \<le> a + n)"
| "inside a n (Store x b) = (a \<le> x \<and> x < a + n)"
| "inside a n (Memcpy x w) = (a \<le> x \<and> x + w \<le> a + n)"
| "inside a n (Malloc k ok) = True"
| "inside a n (Free b) = True"

fun is_malloc :: "event \<Rightarrow> bool" where
  "is_malloc (Malloc k ok) = True"
| "is_malloc e = False"

fun is_heap_event :: "event \<Rightarrow> bool" where
  "is_heap_event (Malloc k ok) = True"
| "is_heap_event (Memcpy x w) = True"
| "is_heap_event (Free b) = True"
| "is_heap_event e = False"

text \<open>A memory that holds the bytes \<open>bs\<close> from address \<open>a\<close> on and zero elsewhere.\<close>

definition bytes_at :: "nat \<Rightarrow> byte list \<Rightarrow> nat \<Rightarrow> byte" where
  "bytes_at a bs x = (if a \<le> x \<and> x < a + length bs then bs ! (x - a) else 0)"

definition boot :: "(nat \<Rightarrow> byte) \<Rightarrow> machine" where
  "boot m = \<lparr>mem = m, heap = [], trace = []\<rparr>"

text \<open>What a call appended to the trace it started from.\<close>

definition new_events :: "machine \<Rightarrow> machine \<Rightarrow> event list" where
  "new_events s s' = drop (length (trace s)) (trace s')"

text \<open>The blocks a trace releases, each with what it held, in order.\<close>

fun released :: "event list \<Rightarrow> byte list list" where
  "released [] = []"
| "released (Free b # es) = b # released es"
| "released (e # es) = released es"

text \<open>
  The declared length of the frame at address \<open>a\<close>: what \<^verbatim>\<open>*(size_t*)(input + 4)\<close> yields.
\<close>

definition declared_length :: "platform \<Rightarrow> machine \<Rightarrow> nat \<Rightarrow> size_t" where
  "declared_length pf s a = fst (load_size_t pf (a + 4) s)"

text \<open>The four one-byte loads of a tag check that runs to its end.\<close>

definition tag_loads :: "nat \<Rightarrow> event list" where
  "tag_loads a = [Load a 1, Load (a + 1) 1, Load (a + 2) 1, Load (a + 3) 1]"

text \<open>
  The loads a tag comparison performs, as a function of the memory alone: one byte at a
  time, up to and including the first byte that differs.
\<close>

fun match_loads :: "(nat \<Rightarrow> byte) \<Rightarrow> nat \<Rightarrow> byte list \<Rightarrow> event list" where
  "match_loads m a [] = []"
| "match_loads m a (c # cs) = Load a 1 # (if m a = c then match_loads m (a + 1) cs else [])"

fun is_store :: "event \<Rightarrow> bool" where
  "is_store (Store x b) = True"
| "is_store e = False"

fun is_load :: "event \<Rightarrow> bool" where
  "is_load (Load x w) = True"
| "is_load e = False"

fun is_allocator_call :: "event \<Rightarrow> bool" where
  "is_allocator_call (Malloc k ok) = True"
| "is_allocator_call (Free b) = True"
| "is_allocator_call e = False"

text \<open>
  Two little-endian platforms: the allocator of one says yes to every request, that of
  the other says no to all. A fresh block reads as \<^verbatim>\<open>AA\<close> bytes on both.
\<close>

definition granting :: platform where
  "granting = \<lparr>byte_order = Little, grants = (\<lambda>h n. True), junk = 0xAA\<rparr>"

definition refusing :: platform where
  "refusing = \<lparr>byte_order = Little, grants = (\<lambda>h n. False), junk = 0xAA\<rparr>"

text \<open>
  What \<open>strncpy d r n\<close> appends to the trace: one-byte loads inside the \<open>n\<close> bytes at
  \<open>r\<close>, stores inside the \<open>n\<close> bytes at \<open>d\<close>; at most \<open>n\<close> loads, exactly \<open>n\<close> stores.
\<close>

definition copy_events :: "nat \<Rightarrow> nat \<Rightarrow> nat \<Rightarrow> event list \<Rightarrow> bool" where
  "copy_events d r n evs \<longleftrightarrow>
     list_all (\<lambda>e. if is_store e then inside d n e else is_load e \<and> inside r n e) evs \<and>
     length (filter is_load evs) \<le> n \<and> length (filter is_store evs) = n"

section \<open>Encoding and decoding the length field\<close>

lemma le_word_slice:
  "le_word (map (\<lambda>i. ucast (drop_bit (8 * i) n)) [j..<j + k]) = take_bit (8 * k) (drop_bit (8 * j) n)"
proof (induction k arbitrary: j)
  case 0
  show ?case by simp
next
  case (Suc k)
  have split: "[j..<j + Suc k] = j # [Suc j..<Suc j + k]"
    by (simp add: upt_rec)
  have "le_word (map (\<lambda>i. ucast (drop_bit (8 * i) n)) [j..<j + Suc k]) =
        ucast (ucast (drop_bit (8 * j) n) :: byte) OR
        push_bit 8 (take_bit (8 * k) (drop_bit (8 * Suc j) n))"
    unfolding split using Suc.IH [of "Suc j"] by simp
  also have "\<dots> = take_bit (8 * Suc k) (drop_bit (8 * j) n)"
  proof (rule bit_word_eqI)
    fix i assume "i < LENGTH(64)"
    show "bit (ucast (ucast (drop_bit (8 * j) n) :: byte) OR
               push_bit 8 (take_bit (8 * k) (drop_bit (8 * Suc j) n))) i =
          bit (take_bit (8 * Suc k) (drop_bit (8 * j) n)) i"
      using \<open>i < LENGTH(64)\<close>
      by (cases "i < 8") (auto simp: bit_simps add.commute add.left_commute)
  qed
  finally show ?case .
qed

lemma le_word_le_bytes: "le_word (le_bytes n) = n"
  using le_word_slice [of n 0 8] take_bit_length_eq [of n] by (simp add: le_bytes_def)

lemma decode_encode: "decode_size_t e (encode_size_t e n) = n"
  by (cases e) (simp_all add: decode_size_t_def encode_size_t_def le_word_le_bytes)

section \<open>What the operations do to the machine\<close>

lemma emit_simps [simp]:
  "mem (emit e s) = mem s" "heap (emit e s) = heap s" "trace (emit e s) = trace s @ [e]"
  by (simp_all add: emit_def)

lemma new_events_append [simp]: "trace s' = trace s @ evs \<Longrightarrow> new_events s s' = evs"
  by (simp add: new_events_def)

lemma new_events_same [simp]: "new_events s s = []"
  by (simp add: new_events_def)

lemma match_bytes_fst: "fst (match_bytes a cs s) = (map (mem s) [a..<a + length cs] = cs)"
proof (induction a cs s rule: match_bytes.induct)
  case (1 a s)
  then show ?case by simp
next
  case (2 a c cs s)
  have "[a..<a + length (c # cs)] = a # [a + 1..<a + 1 + length cs]"
    by (simp add: upt_rec)
  with 2 show ?case by (auto simp: load_byte_def)
qed

lemma match_bytes_snd:
  "snd (match_bytes a cs s) = s\<lparr>trace := trace s @ match_loads (mem s) a cs\<rparr>"
proof (induction a cs s rule: match_bytes.induct)
  case (1 a s)
  then show ?case by simp
next
  case (2 a c cs s)
  show ?case
  proof (cases "mem s a = c")
    case True
    with 2 [OF refl, of "mem s a" "emit (Load a 1) s"] show ?thesis
      by (simp add: load_byte_def emit_def)
  next
    case False
    then show ?thesis by (simp add: load_byte_def emit_def)
  qed
qed

lemma match_loads_shape:
  "e \<in> set (match_loads m a cs) \<Longrightarrow> \<exists>x. e = Load x 1 \<and> a \<le> x \<and> x < a + length cs"
proof (induction cs arbitrary: a)
  case Nil
  then show ?case by simp
next
  case (Cons c cs)
  show ?case
  proof (cases "e = Load a 1")
    case True
    then show ?thesis by simp
  next
    case False
    with Cons.prems have "e \<in> set (match_loads m (a + 1) cs)"
      by (simp split: if_splits)
    from Cons.IH [OF this] show ?thesis by auto
  qed
qed

lemma check_magic_fst:
  "fst (check_magic a len s) = (4 \<le> len \<and> map (mem s) [a..<a + 4] = magic)"
proof -
  have "length magic = 4"
    by (simp add: magic_def)
  with match_bytes_fst [of a magic s] show ?thesis
    by (simp add: check_magic_def)
qed

lemma check_magic_snd:
  "snd (check_magic a len s) =
     s\<lparr>trace := trace s @ (if 4 \<le> len then match_loads (mem s) a magic else [])\<rparr>"
  by (simp add: check_magic_def match_bytes_snd)

lemma check_magic_ok:
  assumes "4 \<le> len" and "map (mem s) [a..<a + 4] = magic"
  shows "check_magic a len s = (True, s\<lparr>trace := trace s @ tag_loads a\<rparr>)"
proof -
  have "[a..<a + 4] = [a, a + 1, a + 2, a + 3]"
    by (simp add: upt_rec)
  with assms(2) have "mem s a = 0x46" "mem s (a + 1) = 0x55" "mem s (a + 2) = 0x5A" "mem s (a + 3) = 0x5A"
    by (simp_all add: magic_def)
  with assms(1) show ?thesis
    by (simp add: check_magic_def magic_def load_byte_def emit_def tag_loads_def eval_nat_numeral)
qed

lemma load_size_t_eq:
  "load_size_t pf x (s\<lparr>trace := t\<rparr>) = (fst (load_size_t pf x s), s\<lparr>trace := t @ [Load x 8]\<rparr>)"
  by (simp add: load_size_t_def emit_def)

lemma malloc_granted:
  "block_fits n \<and> grants pf (heap s) n \<Longrightarrow>
   malloc pf n s =
     (True, s\<lparr>heap := replicate (unat n) (junk pf) # heap s, trace := trace s @ [Malloc n True]\<rparr>)"
  by (simp add: malloc_def emit_def)

lemma malloc_refused:
  "\<not> (block_fits n \<and> grants pf (heap s) n) \<Longrightarrow>
   malloc pf n s = (False, s\<lparr>trace := trace s @ [Malloc n False]\<rparr>)"
  by (simp add: malloc_def emit_def)

lemma copy_free:
  "free (memcpy src k (s\<lparr>heap := replicate k j # h, trace := t\<rparr>)) =
     s\<lparr>heap := h, trace := t @ [Memcpy src k, Free (map (mem s) [src..<src + k])]\<rparr>"
  by (simp add: memcpy_def free_def emit_def)

lemma process_input_Addr:
  "process_input pf (Addr a) len s =
    (let n = declared_length pf s a in
     if len = 0 then (- 1, s)
     else if \<not> (4 \<le> len \<and> map (mem s) [a..<a + 4] = magic) then (1, snd (check_magic a len s))
     else if len < 8 then (1, s\<lparr>trace := trace s @ tag_loads a\<rparr>)
     else if n = 0 \<or> \<not> 8 + n \<le> len
       then (1, s\<lparr>trace := trace s @ tag_loads a @ [Load (a + 4) 8]\<rparr>)
     else if block_fits n \<and> grants pf (heap s) n
       then (0, s\<lparr>trace := trace s @ tag_loads a @
                [Load (a + 4) 8, Malloc n True, Memcpy (a + 8) (unat n),
                 Free (map (mem s) [a + 8..<a + 8 + unat n])]\<rparr>)
     else (1, s\<lparr>trace := trace s @ tag_loads a @ [Load (a + 4) 8, Malloc n False]\<rparr>))"
proof (cases "4 \<le> len \<and> map (mem s) [a..<a + 4] = magic")
  case False
  then have "\<not> fst (check_magic a len s)"
    by (simp add: check_magic_fst)
  then obtain s1 where "check_magic a len s = (False, s1)"
    by (cases "check_magic a len s") simp
  then show ?thesis
    using False by (simp add: process_input_def Let_def)
next
  case True
  then have cm: "check_magic a len s = (True, s\<lparr>trace := trace s @ tag_loads a\<rparr>)"
    by (simp add: check_magic_ok)
  from True have "len \<noteq> 0" by auto
  let ?n = "declared_length pf s a"
  let ?s2 = "s\<lparr>trace := trace s @ tag_loads a @ [Load (a + 4) 8]\<rparr>"
  have ld: "load_size_t pf (a + 4) (s\<lparr>trace := trace s @ tag_loads a\<rparr>) = (?n, ?s2)"
    by (simp add: load_size_t_eq declared_length_def)
  show ?thesis
  proof (cases "block_fits ?n \<and> grants pf (heap s) ?n")
    case True
    then have "malloc pf ?n ?s2 =
        (True, ?s2\<lparr>heap := replicate (unat ?n) (junk pf) # heap s,
                  trace := trace ?s2 @ [Malloc ?n True]\<rparr>)"
      using malloc_granted [of ?n pf ?s2] by simp
    with \<open>len \<noteq> 0\<close> \<open>4 \<le> len \<and> _\<close> True show ?thesis
      by (auto simp: process_input_def cm ld copy_free Let_def word_neq_0_conv not_le)
  next
    case False
    then have "malloc pf ?n ?s2 = (False, ?s2\<lparr>trace := trace ?s2 @ [Malloc ?n False]\<rparr>)"
      using malloc_refused [of ?n pf ?s2] by simp
    with \<open>len \<noteq> 0\<close> \<open>4 \<le> len \<and> _\<close> False show ?thesis
      by (auto simp: process_input_def cm ld Let_def word_neq_0_conv not_le)
  qed
qed

lemma process_input_Null: "process_input pf Null len s = (- 1, s)"
  by (simp add: process_input_def)

lemma tag_check_loads_only:
  "e \<in> set (if 4 \<le> (len::size_t) then match_loads m a magic else []) \<Longrightarrow>
     \<exists>x. e = Load x 1 \<and> a \<le> x \<and> x < a + 4 \<and> 4 \<le> len"
  using match_loads_shape [of e m a magic] by (auto simp: magic_def split: if_splits)




text \<open>The comparison \<^verbatim>\<open>len >= 8 + data_len\<close> on 64-bit words, read on the naturals.\<close>

lemma unat_size_t_bound: "unat (w::size_t) < 18446744073709551616"
  using unsigned_less [of w, where ?'a = nat] by simp

lemma unat_8_plus: "unat (8 + n :: size_t) = (8 + unat n) mod 18446744073709551616"
  by (simp add: unat_word_ariths)

lemma no_wrap_le: "8 + unat (n::size_t) \<le> unat (len::size_t) \<Longrightarrow> 8 + n \<le> len"
  using unat_size_t_bound [of len] by (simp add: word_le_nat_alt unat_8_plus)

lemma no_wrap_less:
  "8 + unat (n::size_t) < 18446744073709551616 \<Longrightarrow> unat (len::size_t) < 8 + unat n \<Longrightarrow> \<not> 8 + n \<le> len"
  by (simp add: word_le_nat_alt unat_8_plus)

lemma wrap_le:
  assumes "18446744073709551616 \<le> 8 + unat (n::size_t)" and "8 \<le> (len::size_t)"
  shows "8 + n \<le> len"
proof -
  from assms(1) unat_size_t_bound [of n]
  have "(8 + unat n) mod 18446744073709551616 = 8 + unat n - 18446744073709551616"
    by (simp add: mod_if)
  moreover from assms(2) have "8 \<le> unat len"
    by (simp add: word_le_nat_alt)
  ultimately show ?thesis
    using unat_size_t_bound [of n] by (simp add: word_le_nat_alt unat_8_plus)
qed

lemma declared_length_encoded:
  "map (mem s) [a + 4..<a + 12] = encode_size_t (byte_order pf) n \<Longrightarrow> declared_length pf s a = n"
  by (simp add: declared_length_def load_size_t_def decode_encode add.assoc)

text \<open>Where the sum does not wrap, the length check rejects what is too long.\<close>

lemma length_check_rejects_without_wrap:
  assumes "map (mem s) [a..<a + 4] = magic" and "8 \<le> len"
    and "8 + unat (declared_length pf s a) < 18446744073709551616"
    and "unat len < 8 + unat (declared_length pf s a)"
  shows "fst (process_input pf (Addr a) len s) = 1 \<and>
         \<not> list_ex is_heap_event (new_events s (snd (process_input pf (Addr a) len s)))"
proof -
  from assms(2) have "len \<noteq> 0" "4 \<le> len" "\<not> len < 8"
    by unat_arith+
  moreover from assms(3,4) have "\<not> 8 + declared_length pf s a \<le> len"
    by (rule no_wrap_less)
  ultimately show ?thesis
    using assms(1) by (simp add: process_input_Addr Let_def tag_loads_def)
qed

text \<open>A block no larger than what is left of an input after 8 bytes fits.\<close>

lemma block_fits_no_wrap: "8 + unat n \<le> unat (len::size_t) \<Longrightarrow> block_fits n"
  using unat_size_t_bound [of len] by (simp add: block_fits_def)

text \<open>
  Where the sum wraps, the length check passes; the request is for a block that cannot
  exist, \<^verbatim>\<open>malloc\<close> refuses it, and the call falls through to the status 1.
\<close>

lemma length_check_passes_on_wrap:
  assumes "map (mem s) [a..<a + 4] = magic" and "8 \<le> len"
    and "18446744073709551616 \<le> 8 + unat (declared_length pf s a)"
  shows "fst (process_input pf (Addr a) len s) = 1 \<and>
         new_events s (snd (process_input pf (Addr a) len s)) =
           tag_loads a @ [Load (a + 4) 8, Malloc (declared_length pf s a) False] \<and>
         heap (snd (process_input pf (Addr a) len s)) = heap s"
proof -
  from assms(2) have "len \<noteq> 0" "4 \<le> len" "\<not> len < 8"
    by unat_arith+
  moreover from assms(3,2) have "8 + declared_length pf s a \<le> len"
    by (rule wrap_le)
  moreover from assms(3) have "declared_length pf s a \<noteq> 0"
    by auto
  moreover from assms(3) have "\<not> block_fits (declared_length pf s a)"
    by (simp add: block_fits_def)
  ultimately show ?thesis
    using assms(1) by (simp add: process_input_Addr Let_def)
qed

text \<open>
  The length field is read once the input has 8 bytes, but it ends at offset 12: on an
  input of 8 to 11 bytes the load runs past the end of the input.
\<close>

lemma length_field_load_overruns:
  assumes "map (mem s) [a..<a + 4] = magic" and "8 \<le> len" and "len < 12"
  shows "Load (a + 4) 8 \<in> set (new_events s (snd (process_input pf (Addr a) len s))) \<and>
         \<not> inside a (unat len) (Load (a + 4) 8)"
proof -
  from assms(2) have "len \<noteq> 0" "4 \<le> len" "\<not> len < 8"
    by unat_arith+
  moreover from assms(3) have "unat len < 12"
    by (simp add: word_less_nat_alt)
  ultimately show ?thesis
    using assms(1) by (simp add: process_input_Addr Let_def tag_loads_def)
qed

lemma unat_max_size_t: "unat (- 1 :: size_t) = 18446744073709551615"
  by (simp add: unsigned_minus_1_eq_mask mask_eq_exp_minus_1)

text \<open>The status of a call, case by case.\<close>

lemma process_input_status:
  "fst (process_input pf input len s) =
     (case input of
        Null \<Rightarrow> - 1
      | Addr a \<Rightarrow>
          if len = 0 then - 1
          else if 4 \<le> len \<and> map (mem s) [a..<a + 4] = magic \<and> 8 \<le> len \<and>
                  declared_length pf s a \<noteq> 0 \<and> 8 + declared_length pf s a \<le> len \<and>
                  block_fits (declared_length pf s a) \<and>
                  grants pf (heap s) (declared_length pf s a)
          then 0 else 1)"
proof (cases input)
  case Null
  then show ?thesis by (simp add: process_input_Null)
next
  case (Addr a)
  then show ?thesis by (auto simp: process_input_Addr Let_def not_le)
qed

text \<open>
  A well-formed frame with a granted allocation is accepted: \<open>n\<close> bytes are copied from
  offset 8 and every access is inside the input.
\<close>

lemma well_formed_accepted:
  assumes "map (mem s) [a..<a + 4] = magic"
    and "map (mem s) [a + 4..<a + 12] = encode_size_t (byte_order pf) n"
    and "n \<noteq> 0"
    and "12 \<le> unat len"
    and "8 + unat n \<le> unat len"
    and "grants pf (heap s) n"
  shows "fst (process_input pf (Addr a) len s) = 0 \<and>
         new_events s (snd (process_input pf (Addr a) len s)) =
           [Load a 1, Load (a + 1) 1, Load (a + 2) 1, Load (a + 3) 1, Load (a + 4) 8,
            Malloc n True, Memcpy (a + 8) (unat n), Free (map (mem s) [a + 8..<a + 8 + unat n])] \<and>
         released (new_events s (snd (process_input pf (Addr a) len s))) =
           [map (mem s) [a + 8..<a + 8 + unat n]] \<and>
         length (map (mem s) [a + 8..<a + 8 + unat n]) = unat n \<and>
         list_all (inside a (unat len)) (new_events s (snd (process_input pf (Addr a) len s)))"
proof -
  have n: "declared_length pf s a = n"
    using assms(2) by (rule declared_length_encoded)
  from assms(4) have "len \<noteq> 0" "4 \<le> len" "\<not> len < 8"
    by (auto simp: word_le_nat_alt word_less_nat_alt)
  moreover from assms(5) have "8 + n \<le> len"
    by (rule no_wrap_le)
  moreover from assms(5) have "block_fits n"
    by (rule block_fits_no_wrap)
  ultimately show ?thesis
    using assms(1,3,4,5,6) n
    by (simp add: process_input_Addr Let_def tag_loads_def)
qed

section \<open>What strncpy does to the machine\<close>

lemma store_byte_simps [simp]:
  "mem (store_byte a b s) = (mem s)(a := b)" "heap (store_byte a b s) = heap s"
  "trace (store_byte a b s) = trace s @ [Store a b]"
  by (simp_all add: store_byte_def)

lemma fill_zero_heap [simp]: "heap (fill_zero d n s) = heap s"
  by (induction d n s rule: fill_zero.induct) simp_all

lemma fill_zero_mem: "mem (fill_zero d n s) x = (if d \<le> x \<and> x < d + n then 0 else mem s x)"
  by (induction d n s rule: fill_zero.induct) auto

lemma fill_zero_trace:
  "\<exists>evs. trace (fill_zero d n s) = trace s @ evs \<and> length evs = n \<and>
     (\<forall>e\<in>set evs. \<exists>x. e = Store x 0 \<and> d \<le> x \<and> x < d + n)"
proof (induction d n s rule: fill_zero.induct)
  case (1 d s)
  then show ?case by simp
next
  case (2 d n s)
  then obtain evs where evs: "trace (fill_zero (d + 1) n (store_byte d 0 s)) = (trace s @ [Store d 0]) @ evs"
    "length evs = n" "\<forall>e\<in>set evs. \<exists>x. e = Store x 0 \<and> d + 1 \<le> x \<and> x < d + 1 + n"
    by auto
  show ?case
  proof (intro exI [of _ "Store d 0 # evs"] conjI ballI)
    fix e assume "e \<in> set (Store d 0 # evs)"
    with evs(3) show "\<exists>x. e = Store x 0 \<and> d \<le> x \<and> x < d + Suc n"
      by (cases "e = Store d 0") fastforce+
  qed (use evs in simp_all)
qed

lemma strncpy_heap [simp]: "heap (strncpy d r n s) = heap s"
  by (induction d r n s rule: strncpy.induct) (simp_all add: load_byte_def)

lemma strncpy_mem_outside:
  "x < d \<or> d + n \<le> x \<Longrightarrow> mem (strncpy d r n s) x = mem s x"
  by (induction d r n s rule: strncpy.induct) (auto simp: load_byte_def fill_zero_mem)

lemma strncpy_trace:
  "\<exists>evs. trace (strncpy d r n s) = trace s @ evs \<and> copy_events d r n evs"
proof (induction d r n s rule: strncpy.induct)
  case (1 d r s)
  then show ?case by (simp add: copy_events_def)
next
  case (2 d r n s)
  show ?case
  proof (cases "mem s r = 0")
    case True
    from fill_zero_trace [of d "Suc n" "emit (Load r 1) s"]
    obtain evs where evs: "trace (fill_zero d (Suc n) (emit (Load r 1) s)) = (trace s @ [Load r 1]) @ evs"
      "length evs = Suc n" "\<forall>e\<in>set evs. \<exists>x. e = Store x 0 \<and> d \<le> x \<and> x < d + Suc n"
      by auto
    from evs(3) have "filter is_load evs = []" "filter is_store evs = evs"
      by (auto simp: filter_empty_conv filter_id_conv)
    with evs True show ?thesis
      by (intro exI [of _ "Load r 1 # evs"])
        (auto simp: load_byte_def copy_events_def list_all_iff)
  next
    case False
    from 2 [OF refl, of "mem s r" "emit (Load r 1) s"] False
    obtain evs where evs:
      "trace (strncpy (d + 1) (r + 1) n (store_byte d (mem s r) (emit (Load r 1) s))) =
         (trace s @ [Load r 1, Store d (mem s r)]) @ evs"
      "copy_events (d + 1) (r + 1) n evs"
      by (auto simp: load_byte_def)
    from evs(2) have "copy_events d r (Suc n) (Load r 1 # Store d (mem s r) # evs)"
      unfolding copy_events_def list_all_iff
      by (auto split: if_splits elim!: is_load.elims is_store.elims)
    with evs(1) False show ?thesis
      by (intro exI [of _ "Load r 1 # Store d (mem s r) # evs"]) (simp add: load_byte_def)
  qed
qed

section \<open>The claims about process_input\<close>

text \<open>
  Claim C1. When the tag is valid, the length is at least 8, the declared length is not
  0 and the exact sum of 8 and the declared length exceeds the input length, the call
  returns the rejection status 1 and leaves the heap as it was, also where the 64-bit
  sum wraps. Where the sum does not wrap, the check \<^verbatim>\<open>len >= 8 + data_len\<close> fails and
  the events are the tag loads and the load of the length field. Where it wraps (a
  declared length of \<open>2\<^sup>6\<^sup>4 - 8\<close> or more) the check passes, \<^verbatim>\<open>malloc\<close> is asked for a
  block that no 64-bit address space can hold and refuses, and the call falls through to
  the same status: nothing is copied and the input is not accepted.
\<close>

theorem oversized_length_rejected:
  assumes "map (mem s) [a..<a + 4] = magic" and "8 \<le> len"
    and "declared_length pf s a \<noteq> 0"
    and "unat len < 8 + unat (declared_length pf s a)"
  shows "fst (process_input pf (Addr a) len s) = 1 \<and>
         new_events s (snd (process_input pf (Addr a) len s)) =
           [Load a 1, Load (a + 1) 1, Load (a + 2) 1, Load (a + 3) 1, Load (a + 4) 8] @
           (if 8 + unat (declared_length pf s a) < 2 ^ 64 then []
            else [Malloc (declared_length pf s a) False]) \<and>
         heap (snd (process_input pf (Addr a) len s)) = heap s"
proof (cases "8 + unat (declared_length pf s a) < 18446744073709551616")
  case True
  from assms(2) have "len \<noteq> 0" "4 \<le> len" "\<not> len < 8"
    by unat_arith+
  moreover from True assms(4) have "\<not> 8 + declared_length pf s a \<le> len"
    by (rule no_wrap_less)
  ultimately show ?thesis
    using assms(1) True by (simp add: process_input_Addr Let_def tag_loads_def)
next
  case False
  then have "18446744073709551616 \<le> 8 + unat (declared_length pf s a)"
    by simp
  from length_check_passes_on_wrap [OF assms(1,2) this] False show ?thesis
    by (simp add: tag_loads_def)
qed

theorem oversized_length_rejected_witness:
  "fst (process_input granting (Addr 0) 17
      (boot (bytes_at 0 (magic @ encode_size_t Little 100 @ [1, 2, 3, 4, 5])))) = 1 \<and>
   fst (process_input granting (Addr 0) 12
      (boot (bytes_at 0 (magic @ encode_size_t Little (- 1))))) = 1 \<and>
   new_events (boot (bytes_at 0 (magic @ encode_size_t Little (- 1))))
      (snd (process_input granting (Addr 0) 12
         (boot (bytes_at 0 (magic @ encode_size_t Little (- 1)))))) =
     [Load 0 1, Load 1 1, Load 2 1, Load 3 1, Load 4 8, Malloc (- 1) False]"
proof -
  let ?short = "boot (bytes_at 0 (magic @ encode_size_t Little 100 @ [1, 2, 3, 4, 5]))"
  let ?huge = "boot (bytes_at 0 (magic @ encode_size_t Little (- 1)))"
  have tag: "map (mem ?short) [0..<0 + 4] = magic" "map (mem ?huge) [0..<0 + 4] = magic"
    by (simp_all add: boot_def bytes_at_def magic_def upt_rec)
  have "map (mem ?short) [0 + 4..<0 + 12] = encode_size_t (byte_order granting) 100"
    by (simp add: boot_def bytes_at_def magic_def encode_size_t_def le_bytes_def upt_rec
        granting_def)
  then have n: "declared_length granting ?short 0 = 100"
    by (rule declared_length_encoded)
  have "map (mem ?huge) [0 + 4..<0 + 12] = encode_size_t (byte_order granting) (- 1)"
    by (simp add: boot_def bytes_at_def magic_def encode_size_t_def le_bytes_def upt_rec
        granting_def)
  then have m: "declared_length granting ?huge 0 = - 1"
    by (rule declared_length_encoded)
  from oversized_length_rejected [of ?short 0 17 granting, OF tag(1)]
    oversized_length_rejected [of ?huge 0 12 granting, OF tag(2)]
  show ?thesis
    by (simp add: n m unat_max_size_t)
qed

text \<open>
  Claim C2. The claim expects the payload to follow the 8-byte length field: on the tag,
  the 8-byte encoding of 3 and the bytes \<^verbatim>\<open>A B C\<close> the copied region should be
  \<^verbatim>\<open>A B C\<close>. The source reads the length field with \<^verbatim>\<open>*(size_t*)(input + 4)\<close>, which
  covers offsets 4 to 11, but guards it with \<^verbatim>\<open>len >= 8\<close> and copies from
  \<^verbatim>\<open>input + 8\<close>, as if the field had 4 bytes. The theorem runs the code on that input:
  the call succeeds, but the 3 bytes it copies are those at offsets 8, 9 and 10, which
  belong to the length field and are \<open>0, 0, 0\<close>; the bytes \<^verbatim>\<open>A B C\<close> at offsets 12 to 14
  are not copied. A fresh block reads as \<^verbatim>\<open>AA\<close> bytes on this platform, so the zeros
  released are the bytes that were copied.
\<close>

theorem copy_overlaps_length_field:
  "fst (process_input granting (Addr 0) 15
      (boot (bytes_at 0 (magic @ encode_size_t Little 3 @ [0x41, 0x42, 0x43])))) = 0 \<and>
   new_events (boot (bytes_at 0 (magic @ encode_size_t Little 3 @ [0x41, 0x42, 0x43])))
      (snd (process_input granting (Addr 0) 15
         (boot (bytes_at 0 (magic @ encode_size_t Little 3 @ [0x41, 0x42, 0x43]))))) =
     [Load 0 1, Load 1 1, Load 2 1, Load 3 1, Load 4 8,
      Malloc 3 True, Memcpy 8 3, Free [0, 0, 0]] \<and>
   map (mem (boot (bytes_at 0 (magic @ encode_size_t Little 3 @ [0x41, 0x42, 0x43])))) [4..<12] =
     encode_size_t Little 3 \<and>
   map (mem (boot (bytes_at 0 (magic @ encode_size_t Little 3 @ [0x41, 0x42, 0x43])))) [12..<15] =
     [0x41, 0x42, 0x43]"
proof -
  let ?s = "boot (bytes_at 0 (magic @ encode_size_t Little 3 @ [0x41, 0x42, 0x43]))"
  have bytes: "magic @ encode_size_t Little 3 @ [0x41, 0x42, 0x43] =
      [0x46, 0x55, 0x5A, 0x5A, 3, 0, 0, 0, 0, 0, 0, 0, 0x41, 0x42, 0x43]"
    by (simp add: magic_def encode_size_t_def le_bytes_def upt_rec)
  have tag: "map (mem ?s) [0..<0 + 4] = magic"
    unfolding bytes by (simp add: boot_def bytes_at_def magic_def upt_rec)
  have enc: "map (mem ?s) [0 + 4..<0 + 12] = encode_size_t (byte_order granting) 3"
    unfolding bytes
    by (simp add: boot_def bytes_at_def encode_size_t_def le_bytes_def upt_rec granting_def)
  have copied: "map (mem ?s) [0 + 8..<0 + 8 + unat (3::size_t)] = [0, 0, 0]"
    unfolding bytes by (simp add: boot_def bytes_at_def upt_rec)
  have rest: "map (mem ?s) [12..<15] = [0x41, 0x42, 0x43]"
    unfolding bytes by (simp add: boot_def bytes_at_def upt_rec)
  have g: "grants granting (heap ?s) 3"
    by (simp add: granting_def)
  from well_formed_accepted [of ?s 0 granting 3 15, OF tag enc _ _ _ g] copied enc rest
  show ?thesis
    by (simp add: granting_def)
qed

text \<open>
  Claim C3. The claim has every call return one of three statuses. The source reads the
  8-byte length field at offsets 4 to 11 as soon as \<^verbatim>\<open>len >= 8\<close>: on an input of 8 to
  11 bytes with a valid tag the load runs past the end of the input, where the machine
  may fault and return no status at all. The theorem runs the code on two such inputs.
  On the 8 bytes \<^verbatim>\<open>F U Z Z 01 00 00 00\<close> the events end with the load of 8 bytes at offset
  4, which is not inside the 8 bytes of the input. On the 11 bytes
  \<^verbatim>\<open>F U Z Z 03 00 00 00 00 00 00\<close> the status is 0 when the byte that follows the input
  in memory is 0 and 1 when it is 1: the status is decided by a byte the input does not
  have. Lemma \<open>process_input_status\<close> above gives the status of every call that does
  not fault.
\<close>

theorem length_field_read_past_input:
  "new_events (boot (bytes_at 0 (magic @ [1, 0, 0, 0])))
      (snd (process_input granting (Addr 0) 8 (boot (bytes_at 0 (magic @ [1, 0, 0, 0]))))) =
     [Load 0 1, Load 1 1, Load 2 1, Load 3 1, Load 4 8] \<and>
   \<not> inside 0 8 (Load 4 8) \<and>
   take 11 (magic @ [3, 0, 0, 0, 0, 0, 0, 0]) = take 11 (magic @ [3, 0, 0, 0, 0, 0, 0, 1]) \<and>
   fst (process_input granting (Addr 0) 11
      (boot (bytes_at 0 (magic @ [3, 0, 0, 0, 0, 0, 0, 0])))) = 0 \<and>
   fst (process_input granting (Addr 0) 11
      (boot (bytes_at 0 (magic @ [3, 0, 0, 0, 0, 0, 0, 1])))) = 1"
proof -
  let ?s8 = "boot (bytes_at 0 (magic @ [1, 0, 0, 0]))"
  let ?s0 = "boot (bytes_at 0 (magic @ [3, 0, 0, 0, 0, 0, 0, 0]))"
  let ?s1 = "boot (bytes_at 0 (magic @ [3, 0, 0, 0, 0, 0, 0, 1]))"
  have tag: "map (mem ?s8) [0..<0 + 4] = magic" "map (mem ?s0) [0..<0 + 4] = magic"
    "map (mem ?s1) [0..<0 + 4] = magic"
    by (simp_all add: boot_def bytes_at_def magic_def upt_rec)
  have n8: "declared_length granting ?s8 0 = 1"
    and n0: "declared_length granting ?s0 0 = 3"
    and n1: "declared_length granting ?s1 0 = 0x100000000000003"
    by (simp_all add: boot_def bytes_at_def magic_def declared_length_def load_size_t_def
        decode_size_t_def granting_def upt_rec)
  have fits: "block_fits (3::size_t)"
    by (simp add: block_fits_def)
  have "new_events ?s8 (snd (process_input granting (Addr 0) 8 ?s8)) =
      [Load 0 1, Load 1 1, Load 2 1, Load 3 1, Load 4 8]"
    using tag(1) by (simp add: process_input_Addr n8 Let_def tag_loads_def)
  moreover have "grants granting h 3" for h
    by (simp add: granting_def)
  then have "fst (process_input granting (Addr 0) 11 ?s0) = 0"
    using tag(2) fits by (simp add: process_input_status n0)
  moreover have "fst (process_input granting (Addr 0) 11 ?s1) = 1"
    using tag(3) by (simp add: process_input_status n1)
  ultimately show ?thesis
    by (simp add: magic_def)
qed

text \<open>
  Claim C4. A call with a null input pointer or with length 0 returns \<open>-1\<close>; no other
  call returns \<open>-1\<close>, so this status is distinct from the one of every other rejection;
  and such a call does nothing else: the machine it returns is the one it was given, with
  no event added to the trace, so no allocation was attempted.
\<close>

theorem null_or_empty_rejected:
  "(fst (process_input pf input len s) = - 1) = (input = Null \<or> len = 0) \<and>
   (input = Null \<or> len = 0 \<longrightarrow>
      snd (process_input pf input len s) = s \<and>
      new_events s (snd (process_input pf input len s)) = [])"
proof (cases input)
  case Null
  then show ?thesis by (simp add: process_input_Null)
next
  case (Addr a)
  then show ?thesis by (simp add: process_input_Addr Let_def)
qed

theorem null_or_empty_rejected_witness:
  "process_input granting Null 5 (boot (bytes_at 0 [0x46])) = (- 1, boot (bytes_at 0 [0x46])) \<and>
   process_input granting (Addr 0) 0 (boot (bytes_at 0 [0x46])) = (- 1, boot (bytes_at 0 [0x46])) \<and>
   fst (process_input granting (Addr 0) 2 (boot (bytes_at 0 [0x46, 0x55]))) = 1"
  using null_or_empty_rejected [of granting Null 5 "boot (bytes_at 0 [0x46])"]
    null_or_empty_rejected [of granting "Addr 0" 0 "boot (bytes_at 0 [0x46])"]
    null_or_empty_rejected [of granting "Addr 0" 2 "boot (bytes_at 0 [0x46, 0x55])"]
  by (simp add: process_input_def check_magic_def prod_eq_iff)

text \<open>
  Claim C5. When the input is shorter than 4 bytes, or its first 4 bytes are not
  \<^verbatim>\<open>F\<close>, \<^verbatim>\<open>U\<close>, \<^verbatim>\<open>Z\<close>, \<^verbatim>\<open>Z\<close>, the call returns one of the two rejection statuses \<open>-1\<close> and
  \<open>1\<close>, never the success status 0; it calls \<^verbatim>\<open>malloc\<close> not once and leaves the heap as
  it was.
\<close>

theorem bad_tag_rejected:
  assumes "len < 4 \<or> map (mem s) [a..<a + 4] \<noteq> magic"
  shows "fst (process_input pf (Addr a) len s) \<in> {- 1, 1} \<and>
         \<not> list_ex is_malloc (new_events s (snd (process_input pf (Addr a) len s))) \<and>
         heap (snd (process_input pf (Addr a) len s)) = heap s"
proof -
  from assms have bad: "\<not> (4 \<le> len \<and> map (mem s) [a..<a + 4] = magic)"
    by auto
  have "\<not> list_ex is_malloc (if 4 \<le> len then match_loads (mem s) a magic else [])"
    using tag_check_loads_only [of _ len "mem s" a] by (fastforce simp: list_ex_iff)
  with bad show ?thesis
    by (simp add: process_input_Addr check_magic_snd Let_def)
qed

theorem bad_tag_rejected_witness:
  "fst (process_input granting (Addr 0) 3 (boot (bytes_at 0 [0x46, 0x55, 0x5A]))) \<in> {- 1, 1} \<and>
   fst (process_input granting (Addr 0) 13
      (boot (bytes_at 0 ([0x46, 0x55, 0x5A, 0x5B] @ encode_size_t Little 1 @ [7])))) \<in> {- 1, 1} \<and>
   \<not> list_ex is_malloc
      (new_events (boot (bytes_at 0 ([0x46, 0x55, 0x5A, 0x5B] @ encode_size_t Little 1 @ [7])))
        (snd (process_input granting (Addr 0) 13
           (boot (bytes_at 0 ([0x46, 0x55, 0x5A, 0x5B] @ encode_size_t Little 1 @ [7]))))))"
proof -
  let ?short = "boot (bytes_at 0 [0x46, 0x55, 0x5A])"
  let ?wrong = "boot (bytes_at 0 ([0x46, 0x55, 0x5A, 0x5B] @ encode_size_t Little 1 @ [7]))"
  have short: "(3::size_t) < 4 \<or> map (mem ?short) [0..<0 + 4] \<noteq> magic"
    by simp
  have wrong: "(13::size_t) < 4 \<or> map (mem ?wrong) [0..<0 + 4] \<noteq> magic"
    by (simp add: boot_def bytes_at_def magic_def upt_rec)
  from bad_tag_rejected [OF short, of granting] bad_tag_rejected [OF wrong, of granting]
  show ?thesis by blast
qed

text \<open>
  Claim C6. When the first 4 bytes are the tag and the length is below 8, the call returns
  the status 1 and its only memory accesses are the four one-byte loads of the tag, all
  inside the \<open>len\<close> bytes of the input: the length field is never read.
\<close>

theorem short_header_rejected:
  assumes "map (mem s) [a..<a + 4] = magic" and "4 \<le> len" and "len < 8"
  shows "fst (process_input pf (Addr a) len s) = 1 \<and>
         new_events s (snd (process_input pf (Addr a) len s)) =
           [Load a 1, Load (a + 1) 1, Load (a + 2) 1, Load (a + 3) 1] \<and>
         list_all (inside a (unat len)) (new_events s (snd (process_input pf (Addr a) len s))) \<and>
         mem (snd (process_input pf (Addr a) len s)) = mem s \<and>
         heap (snd (process_input pf (Addr a) len s)) = heap s"
proof -
  from assms(2) have "len \<noteq> 0" by auto
  from assms(2) have "4 \<le> unat len"
    by (simp add: word_le_nat_alt)
  with assms \<open>len \<noteq> 0\<close> show ?thesis
    by (simp add: process_input_Addr Let_def tag_loads_def)
qed

theorem short_header_rejected_witness:
  "fst (process_input granting (Addr 0) 7 (boot (bytes_at 0 (magic @ [1, 0, 0])))) = 1 \<and>
   new_events (boot (bytes_at 0 (magic @ [1, 0, 0])))
      (snd (process_input granting (Addr 0) 7 (boot (bytes_at 0 (magic @ [1, 0, 0]))))) =
    [Load 0 1, Load 1 1, Load 2 1, Load 3 1]"
  using short_header_rejected [of "boot (bytes_at 0 (magic @ [1, 0, 0]))" 0 7 granting]
  by (simp add: boot_def bytes_at_def magic_def upt_rec)

text \<open>
  Claim C7. When the tag is valid, the length is at least 8 and the length field decodes
  to 0, the call returns the status 1 after reading the tag and the length field; it
  neither allocates nor copies, and the heap is as it was.
\<close>

theorem zero_length_rejected:
  assumes "map (mem s) [a..<a + 4] = magic" and "8 \<le> len" and "declared_length pf s a = 0"
  shows "fst (process_input pf (Addr a) len s) = 1 \<and>
         new_events s (snd (process_input pf (Addr a) len s)) =
           [Load a 1, Load (a + 1) 1, Load (a + 2) 1, Load (a + 3) 1, Load (a + 4) 8] \<and>
         \<not> list_ex is_heap_event (new_events s (snd (process_input pf (Addr a) len s))) \<and>
         heap (snd (process_input pf (Addr a) len s)) = heap s"
proof -
  from assms(2) have "len \<noteq> 0" "4 \<le> len" "\<not> len < 8"
    by unat_arith+
  with assms show ?thesis
    by (simp add: process_input_Addr Let_def tag_loads_def)
qed

theorem zero_length_rejected_witness:
  "fst (process_input granting (Addr 0) 14
      (boot (bytes_at 0 (magic @ encode_size_t Little 0 @ [0x41, 0x42])))) = 1 \<and>
   \<not> list_ex is_heap_event (new_events (boot (bytes_at 0 (magic @ encode_size_t Little 0 @ [0x41, 0x42])))
      (snd (process_input granting (Addr 0) 14
         (boot (bytes_at 0 (magic @ encode_size_t Little 0 @ [0x41, 0x42]))))))"
  using zero_length_rejected [of "boot (bytes_at 0 (magic @ encode_size_t Little 0 @ [0x41, 0x42]))" 0 14 granting]
  by (simp add: boot_def bytes_at_def magic_def upt_rec declared_length_def load_size_t_def
      decode_size_t_def encode_size_t_def le_bytes_def granting_def)


text \<open>
  Claim C9. A call leaves memory and heap as it found them and only appends events to the
  trace. None of these events is a store, and the calls to the allocator among them are
  none, or one refused \<^verbatim>\<open>malloc\<close>, or one granted \<^verbatim>\<open>malloc\<close> followed by the
  \<^verbatim>\<open>free\<close> of that block.
\<close>

theorem leaves_no_footprint:
  "mem (snd (process_input pf input len s)) = mem s \<and>
   heap (snd (process_input pf input len s)) = heap s \<and>
   trace (snd (process_input pf input len s)) =
     trace s @ new_events s (snd (process_input pf input len s)) \<and>
   \<not> list_ex is_store (new_events s (snd (process_input pf input len s))) \<and>
   (\<exists>n b. filter is_allocator_call (new_events s (snd (process_input pf input len s)))
            \<in> {[], [Malloc n False], [Malloc n True, Free b]})"
proof (cases input)
  case Null
  then show ?thesis by (simp add: process_input_Null)
next
  case (Addr a)
  let ?tag = "if 4 \<le> len then match_loads (mem s) a magic else []"
  have "\<not> is_store e \<and> \<not> is_allocator_call e" if "e \<in> set ?tag" for e
    using tag_check_loads_only [OF that] by auto
  then have "\<not> list_ex is_store ?tag" and "filter is_allocator_call ?tag = []"
    by (auto simp: list_ex_iff filter_empty_conv)
  with Addr show ?thesis
    by (simp add: process_input_Addr check_magic_snd Let_def tag_loads_def)
qed

section \<open>The claim about safe_copy_string\<close>

text \<open>
  Claim C10. With both pointers non-null and a nonzero \<open>dest_size\<close>, the call changes
  no byte of memory outside \<open>dest[0 .. dest_size - 1]\<close> and leaves a null byte at index
  \<open>dest_size - 1\<close>; its events are those of \<^verbatim>\<open>strncpy\<close> with bound \<open>dest_size - 1\<close> (at
  most \<open>dest_size - 1\<close> one-byte loads, all inside the first \<open>dest_size - 1\<close> bytes of
  \<open>src\<close>, and \<open>dest_size - 1\<close> stores inside the first \<open>dest_size - 1\<close> bytes of
  \<open>dest\<close>) followed by the store of the terminator; every store is inside \<open>dest\<close>. With
  a null pointer or \<open>dest_size = 0\<close> the call returns the machine as it was. Source and
  destination share one memory, so the statement holds for overlapping buffers too.
\<close>

theorem safe_copy_string_bounded:
  "(dest = Addr d \<and> src = Addr r \<and> dest_size \<noteq> 0 \<longrightarrow>
      (\<forall>x. x < d \<or> d + unat dest_size \<le> x \<longrightarrow>
           mem (safe_copy_string dest src dest_size s) x = mem s x) \<and>
      mem (safe_copy_string dest src dest_size s) (d + (unat dest_size - 1)) = 0 \<and>
      (\<exists>evs. new_events s (safe_copy_string dest src dest_size s) =
                evs @ [Store (d + (unat dest_size - 1)) 0] \<and>
             copy_events d r (unat dest_size - 1) evs) \<and>
      list_all (\<lambda>e. is_store e \<longrightarrow> inside d (unat dest_size) e)
        (new_events s (safe_copy_string dest src dest_size s)) \<and>
      heap (safe_copy_string dest src dest_size s) = heap s) \<and>
   (dest = Null \<or> src = Null \<or> dest_size = 0 \<longrightarrow> safe_copy_string dest src dest_size s = s)"
proof (intro conjI impI)
  assume "dest = Null \<or> src = Null \<or> dest_size = 0"
  then show "safe_copy_string dest src dest_size s = s"
    by (auto simp: safe_copy_string_def split: ptr.splits)
next
  assume a: "dest = Addr d \<and> src = Addr r \<and> dest_size \<noteq> 0"
  define m where "m = unat dest_size - 1"
  from a have m: "unat (dest_size - 1) = m" and size: "unat dest_size = Suc m"
    by (simp_all add: m_def unat_minus_one unat_gt_0)
  let ?s1 = "strncpy d r m s"
  from a have eq: "safe_copy_string dest src dest_size s = store_byte (d + m) 0 ?s1"
    by (simp add: safe_copy_string_def m)
  obtain evs where evs: "trace ?s1 = trace s @ evs" "copy_events d r m evs"
    using strncpy_trace [of d r m s] by blast
  have new: "new_events s (safe_copy_string dest src dest_size s) = evs @ [Store (d + m) 0]"
    unfolding eq by (simp add: evs(1) new_events_def)
  show "\<forall>x. x < d \<or> d + unat dest_size \<le> x \<longrightarrow>
           mem (safe_copy_string dest src dest_size s) x = mem s x"
    unfolding eq size by (auto simp: strncpy_mem_outside)
  show "mem (safe_copy_string dest src dest_size s) (d + (unat dest_size - 1)) = 0"
    unfolding eq by (simp add: m_def)
  show "\<exists>evs. new_events s (safe_copy_string dest src dest_size s) =
                evs @ [Store (d + (unat dest_size - 1)) 0] \<and>
             copy_events d r (unat dest_size - 1) evs"
    using new evs(2) by (auto simp: m_def)
  show "list_all (\<lambda>e. is_store e \<longrightarrow> inside d (unat dest_size) e)
        (new_events s (safe_copy_string dest src dest_size s))"
    unfolding new size using evs(2)
    by (auto simp: copy_events_def list_all_iff elim!: is_store.elims split: if_splits)
  show "heap (safe_copy_string dest src dest_size s) = heap s"
    unfolding eq by simp
qed

theorem safe_copy_string_bounded_witness:
  "map (mem (safe_copy_string (Addr 10) (Addr 100) 4
        (boot (bytes_at 100 [0x41, 0x42, 0x43, 0x44, 0x45, 0])))) [9..<15] = [0, 0x41, 0x42, 0x43, 0, 0] \<and>
   mem (safe_copy_string (Addr 10) (Addr 100) 4
        (boot (bytes_at 100 [0x41, 0x42, 0x43, 0x44, 0x45, 0]))) (10 + (unat (4::size_t) - 1)) = 0 \<and>
   safe_copy_string Null (Addr 100) 4 (boot (bytes_at 100 [0x41, 0]))
     = boot (bytes_at 100 [0x41, 0]) \<and>
   safe_copy_string (Addr 10) (Addr 100) 0 (boot (bytes_at 100 [0x41, 0]))
     = boot (bytes_at 100 [0x41, 0])"
proof -
  let ?s = "boot (bytes_at 100 [0x41, 0x42, 0x43, 0x44, 0x45, 0])"
  let ?t = "boot (bytes_at 100 [0x41, 0])"
  have step: "safe_copy_string (Addr 10) (Addr 100) 4 ?s = store_byte 13 0 (strncpy 10 100 3 ?s)"
    by (simp add: safe_copy_string_def)
  have run: "map (mem (safe_copy_string (Addr 10) (Addr 100) 4 ?s)) [9..<15] = [0, 0x41, 0x42, 0x43, 0, 0]"
    unfolding step
    by (simp add: numeral_3_eq_3 boot_def bytes_at_def load_byte_def store_byte_def emit_def upt_rec)
  from safe_copy_string_bounded [of "Addr 10" 10 "Addr 100" 100 4 ?s]
    safe_copy_string_bounded [of Null 10 "Addr 100" 100 4 ?t]
    safe_copy_string_bounded [of "Addr 10" 10 "Addr 100" 100 0 ?t] run
  show ?thesis by simp
qed

end
